theory Spec2Isabelle
  imports Complex_Main "HOL-Library.Char_ord" "HOL-Library.List_Lexorder"
begin

section \<open>Exceptions\<close>

text \<open>
  The program defines no exception class of its own. What it can raise comes from the
  calls it makes: \<open>ValueError\<close> from \<open>strptime\<close>, from the \<open>date\<close> constructor and from
  the regression's input check (the specification names all of these \<open>ValidationError\<close>),
  \<open>OverflowError\<close> from date arithmetic and \<open>IndexError\<close> from list indexing.
\<close>

datatype error = ValidationError | OverflowError | IndexError

section \<open>Calendar dates: \<open>datetime.date\<close>\<close>

record date =
  year :: int
  month :: int
  day :: int

definition MAXORDINAL :: int where
  "MAXORDINAL = 3652059"

definition DAYS_IN_MONTH :: "int list" where
  "DAYS_IN_MONTH = [-1, 31, 28, 31, 30, 31, 30, 31, 31, 30, 31, 30, 31]"

definition DAYS_BEFORE_MONTH :: "int list" where
  "DAYS_BEFORE_MONTH = [-1, 0, 31, 59, 90, 120, 151, 181, 212, 243, 273, 304, 334]"

definition is_leap :: "int \<Rightarrow> bool" where
  "is_leap y = (y mod 4 = 0 \<and> (y mod 100 \<noteq> 0 \<or> y mod 400 = 0))"

definition days_before_year :: "int \<Rightarrow> int" where
  "days_before_year y0 = (let y = y0 - 1 in y * 365 + y div 4 - y div 100 + y div 400)"

definition days_in_month :: "int \<Rightarrow> int \<Rightarrow> int" where
  "days_in_month y m = (if m = 2 \<and> is_leap y then 29 else DAYS_IN_MONTH ! nat m)"

definition days_before_month :: "int \<Rightarrow> int \<Rightarrow> int" where
  "days_before_month y m = DAYS_BEFORE_MONTH ! nat m + (if m > 2 \<and> is_leap y then 1 else 0)"

definition ymd2ord :: "int \<Rightarrow> int \<Rightarrow> int \<Rightarrow> int" where
  "ymd2ord y m d = days_before_year y + days_before_month y m + d"

definition DI400Y :: int where
  "DI400Y = days_before_year 401"

definition DI100Y :: int where
  "DI100Y = days_before_year 101"

definition DI4Y :: int where
  "DI4Y = days_before_year 5"

definition ord2ymd :: "int \<Rightarrow> int \<times> int \<times> int" where
  "ord2ymd n0 =
     (let n = n0 - 1;
          n400 = n div DI400Y; n = n mod DI400Y;
          y = n400 * 400 + 1;
          n100 = n div DI100Y; n = n mod DI100Y;
          n4 = n div DI4Y; n = n mod DI4Y;
          n1 = n div 365; n = n mod 365;
          y = y + (n100 * 100 + n4 * 4 + n1)
      in if n1 = 4 \<or> n100 = 4 then (y - 1, 12, 31)
         else
           (let leapyear = (n1 = 3 \<and> (n4 \<noteq> 24 \<or> n100 = 3));
                m = (n + 50) div 32;
                preceding = DAYS_BEFORE_MONTH ! nat m + (if m > 2 \<and> leapyear then 1 else 0)
            in if preceding > n
               then (let m = m - 1;
                         preceding = preceding
                           - (DAYS_IN_MONTH ! nat m + (if m = 2 \<and> leapyear then 1 else 0))
                     in (y, m, n - preceding + 1))
               else (y, m, n - preceding + 1)))"

text \<open>
  \<open>valid_date\<close> is the check of the \<open>date\<close> constructor (\<open>_check_date_fields\<close>): every
  \<open>date\<close> object of the program satisfies it.
\<close>

definition valid_date :: "date \<Rightarrow> bool" where
  "valid_date dt =
     (1 \<le> year dt \<and> year dt \<le> 9999 \<and> 1 \<le> month dt \<and> month dt \<le> 12 \<and>
      1 \<le> day dt \<and> day dt \<le> days_in_month (year dt) (month dt))"

definition new_date :: "int \<Rightarrow> int \<Rightarrow> int \<Rightarrow> error + date" where
  "new_date y m d =
     (let dt = \<lparr>year = y, month = m, day = d\<rparr>
      in if valid_date dt then Inr dt else Inl ValidationError)"

definition toordinal :: "date \<Rightarrow> int" where
  "toordinal dt = ymd2ord (year dt) (month dt) (day dt)"

definition fromordinal :: "int \<Rightarrow> error + date" where
  "fromordinal n = (case ord2ymd n of (y, m, d) \<Rightarrow> new_date y m d)"

text \<open>\<open>dt + timedelta(days=k)\<close> and \<open>dt - timedelta(days=k)\<close>.\<close>

definition date_add :: "date \<Rightarrow> int \<Rightarrow> error + date" where
  "date_add dt k =
     (let o' = toordinal dt + k
      in if 0 < o' \<and> o' \<le> MAXORDINAL then fromordinal o' else Inl OverflowError)"

definition date_sub :: "date \<Rightarrow> int \<Rightarrow> error + date" where
  "date_sub dt k = date_add dt (- k)"

text \<open>Comparison of dates is comparison of the tuples (year, month, day).\<close>

definition date_le :: "date \<Rightarrow> date \<Rightarrow> bool" where
  "date_le a b =
     (year a < year b \<or>
      (year a = year b \<and> (month a < month b \<or> (month a = month b \<and> day a \<le> day b))))"

definition date_lt :: "date \<Rightarrow> date \<Rightarrow> bool" where
  "date_lt a b =
     (year a < year b \<or>
      (year a = year b \<and> (month a < month b \<or> (month a = month b \<and> day a < day b))))"

subsection \<open>\<open>isoformat\<close>: the format \<open>%04d-%02d-%02d\<close>\<close>

definition digit_char :: "nat \<Rightarrow> char" where
  "digit_char n = char_of (48 + n)"

function decimal :: "nat \<Rightarrow> string" where
  "decimal n = (if n < 10 then [digit_char n] else decimal (n div 10) @ [digit_char (n mod 10)])"
  by pat_completeness auto
termination
  by (relation "measure id") auto

declare decimal.simps [simp del]

definition zfill :: "nat \<Rightarrow> string \<Rightarrow> string" where
  "zfill w s = replicate (w - length s) (CHR ''0'') @ s"

text \<open>\<open>'%0wd' % n\<close>: the sign counts towards the width.\<close>

definition fmt_0d :: "nat \<Rightarrow> int \<Rightarrow> string" where
  "fmt_0d w n =
     (if n < 0 then CHR ''-'' # zfill (w - 1) (decimal (nat (- n)))
      else zfill w (decimal (nat n)))"

definition isoformat :: "date \<Rightarrow> string" where
  "isoformat dt =
     fmt_0d 4 (year dt) @ ''-'' @ fmt_0d 2 (month dt) @ ''-'' @ fmt_0d 2 (day dt)"

subsection \<open>\<open>strptime(s, '%Y-%m-%d')\<close>\<close>

text \<open>
  \<open>_strptime\<close> turns the format into the regular expression
  \<^verbatim>\<open>(?P<Y>\d\d\d\d)-(?P<m>1[0-2]|0[1-9]|[1-9])-(?P<d>3[0-1]|[1-2]\d|0[1-9]|[1-9]| [1-9])\<close>,
  takes its first match at the start of the string, refuses a match that leaves text
  unconverted, converts the groups with \<open>int\<close> and builds the date, whose constructor
  checks the fields. Every failure is a \<open>ValueError\<close>. A piece of the expression is
  modelled as the list of its matches at the start of a string, in the order in which a
  backtracking matcher tries them; each match is the matched text and the rest. Strings
  are byte strings; a decimal digit outside ASCII, which \<^verbatim>\<open>\d\<close> also accepts, is outside
  the model. So the model agrees with \<open>strptime\<close> on ASCII text, and a text that the
  model accepts is accepted by \<open>strptime\<close> with the same date; the theorems of the
  claims do not rest on the model refusing a text that is not ASCII.
\<close>

definition in_range :: "char \<Rightarrow> char \<Rightarrow> char \<Rightarrow> bool" where
  "in_range lo hi c = (lo \<le> c \<and> c \<le> hi)"

definition is_digit :: "char \<Rightarrow> bool" where
  "is_digit c = in_range (CHR ''0'') (CHR ''9'') c"

definition digit_val :: "char \<Rightarrow> nat" where
  "digit_val c = of_char c - 48"

fun cls1 :: "(char \<Rightarrow> bool) \<Rightarrow> string \<Rightarrow> (string \<times> string) list" where
  "cls1 p (a # r) = (if p a then [([a], r)] else [])"
| "cls1 p [] = []"

fun cls2 :: "(char \<Rightarrow> bool) \<Rightarrow> (char \<Rightarrow> bool) \<Rightarrow> string \<Rightarrow> (string \<times> string) list" where
  "cls2 p q (a # b # r) = (if p a \<and> q b then [([a, b], r)] else [])"
| "cls2 p q [a] = []"
| "cls2 p q [] = []"

fun lit :: "char \<Rightarrow> string \<Rightarrow> string list" where
  "lit c (a # r) = (if a = c then [r] else [])"
| "lit c [] = []"

fun re_Y :: "string \<Rightarrow> (string \<times> string) list" where
  "re_Y (a # b # c # d # r) =
     (if is_digit a \<and> is_digit b \<and> is_digit c \<and> is_digit d then [([a, b, c, d], r)] else [])"
| "re_Y [a, b, c] = []"
| "re_Y [a, b] = []"
| "re_Y [a] = []"
| "re_Y [] = []"

definition re_m :: "string \<Rightarrow> (string \<times> string) list" where
  "re_m s =
     cls2 (\<lambda>c. c = CHR ''1'') (in_range (CHR ''0'') (CHR ''2'')) s @
     cls2 (\<lambda>c. c = CHR ''0'') (in_range (CHR ''1'') (CHR ''9'')) s @
     cls1 (in_range (CHR ''1'') (CHR ''9'')) s"

definition re_d :: "string \<Rightarrow> (string \<times> string) list" where
  "re_d s =
     cls2 (\<lambda>c. c = CHR ''3'') (in_range (CHR ''0'') (CHR ''1'')) s @
     cls2 (in_range (CHR ''1'') (CHR ''2'')) is_digit s @
     cls2 (\<lambda>c. c = CHR ''0'') (in_range (CHR ''1'') (CHR ''9'')) s @
     cls1 (in_range (CHR ''1'') (CHR ''9'')) s @
     cls2 (\<lambda>c. c = CHR '' '') (in_range (CHR ''1'') (CHR ''9'')) s"

definition format_regex_match :: "string \<Rightarrow> ((string \<times> string \<times> string) \<times> string) list" where
  "format_regex_match s =
     [((Y, m, d), r5).
        (Y, r1) \<leftarrow> re_Y s, r2 \<leftarrow> lit (CHR ''-'') r1,
        (m, r3) \<leftarrow> re_m r2, r4 \<leftarrow> lit (CHR ''-'') r3,
        (d, r5) \<leftarrow> re_d r4]"

text \<open>\<open>int(s)\<close> on a matched group: decimal digits, after white space that \<open>int\<close> strips.\<close>

definition int_of_str :: "string \<Rightarrow> int" where
  "int_of_str s =
     foldl (\<lambda>n c. 10 * n + int (digit_val c)) 0 (dropWhile (\<lambda>c. c = CHR '' '') s)"

definition strptime :: "string \<Rightarrow> error + date" where
  "strptime s =
     (case format_regex_match s of
        [] \<Rightarrow> Inl ValidationError
      | ((Y, m, d), r) # _ \<Rightarrow>
          if r \<noteq> [] then Inl ValidationError
          else new_date (int_of_str Y) (int_of_str m) (int_of_str d))"

section \<open>The database\<close>

text \<open>
  \<open>init_db\<close> creates the two tables \<open>weights(date TEXT PRIMARY KEY, weight REAL)\<close> and
  \<open>preferences(key TEXT PRIMARY KEY, value TEXT)\<close>. A table is the list of its rows in
  insertion order. Every function of the program opens the database file, runs one
  statement, commits and closes: the model passes the database in and returns it
  updated. Failures of the file system are not modelled.
\<close>

record 'w db =
  weights :: "(string \<times> 'w) list"
  preferences :: "(string \<times> string) list"

text \<open>\<open>CREATE TABLE IF NOT EXISTS\<close>: a database that exists is left as it is.\<close>

definition init_db :: "'w db option \<Rightarrow> 'w db" where
  "init_db file =
     (case file of None \<Rightarrow> \<lparr>weights = [], preferences = []\<rparr> | Some d \<Rightarrow> d)"

text \<open>
  \<open>INSERT OR REPLACE INTO t VALUES (k, v)\<close>: the rows whose primary key conflicts with
  the new row are deleted, then the row is inserted.
\<close>

definition insert_or_replace :: "string \<Rightarrow> 'v \<Rightarrow> (string \<times> 'v) list \<Rightarrow> (string \<times> 'v) list" where
  "insert_or_replace k v rows = filter (\<lambda>r. fst r \<noteq> k) rows @ [(k, v)]"

definition log_weight :: "string \<Rightarrow> 'w \<Rightarrow> 'w db \<Rightarrow> 'w db" where
  "log_weight date' weight d = d\<lparr>weights := insert_or_replace date' weight (weights d)\<rparr>"

text \<open>
  The two \<open>SELECT\<close> statements of \<open>get_weights\<close>. A \<open>date\<close> bound to the parameter
  is adapted to its \<open>isoformat\<close>; the column is compared and ordered as text, byte by
  byte (the order \<open>\<le>\<close> on strings).
\<close>

definition select_weights :: "date option \<Rightarrow> 'w db \<Rightarrow> (string \<times> 'w) list" where
  "select_weights start_date d =
     (case start_date of
        Some s \<Rightarrow> sort_key fst (filter (\<lambda>r. isoformat s \<le> fst r) (weights d))
      | None \<Rightarrow> sort_key fst (weights d))"

text \<open>The list comprehension over the rows: the first date that does not parse raises.\<close>

fun parse_dates :: "(string \<times> 'w) list \<Rightarrow> error + date list" where
  "parse_dates [] = Inr []"
| "parse_dates (r # rs) =
     (case strptime (fst r) of
        Inl e \<Rightarrow> Inl e
      | Inr dt \<Rightarrow> (case parse_dates rs of Inl e \<Rightarrow> Inl e | Inr dts \<Rightarrow> Inr (dt # dts)))"

definition get_weights :: "date option \<Rightarrow> 'w db \<Rightarrow> error + (date list \<times> 'w list)" where
  "get_weights start_date d =
     (let results = select_weights start_date d
      in case parse_dates results of
           Inl e \<Rightarrow> Inl e
         | Inr dates \<Rightarrow> Inr (dates, map snd results))"

definition get_preference :: "string \<Rightarrow> string \<Rightarrow> 'w db \<Rightarrow> string" where
  "get_preference k default' d =
     (case find (\<lambda>r. fst r = k) (preferences d) of Some r \<Rightarrow> snd r | None \<Rightarrow> default')"

section \<open>The start date of the graph\<close>

text \<open>An optional command-line argument is used when it is neither \<open>None\<close> nor empty.\<close>

definition truthy :: "string option \<Rightarrow> bool" where
  "truthy a = (case a of None \<Rightarrow> False | Some s \<Rightarrow> s \<noteq> [])"

definition startswith :: "string \<Rightarrow> string \<Rightarrow> bool" where
  "startswith s p = (take (length p) s = p)"

fun split :: "char \<Rightarrow> string \<Rightarrow> string list" where
  "split c [] = [[]]"
| "split c (a # s) =
     (if a = c then [] # split c s
      else (case split c s of p # ps \<Rightarrow> (a # p) # ps | [] \<Rightarrow> [[a]]))"

definition some_date :: "error + date \<Rightarrow> error + date option" where
  "some_date r = (case r of Inl e \<Rightarrow> Inl e | Inr dt \<Rightarrow> Inr (Some dt))"

text \<open>
  Lines 139 to 155 of \<open>main\<close>; \<open>today\<close> stands for \<open>datetime.date.today()\<close>, and the
  result is the \<open>start_date\<close> handed to \<open>get_weights\<close>.
\<close>

definition graph_range_of :: "string option \<Rightarrow> 'w db \<Rightarrow> string" where
  "graph_range_of args_range d =
     (if truthy args_range then the args_range
      else get_preference ''default_range'' ''all'' d)"

definition main_start_date :: "date \<Rightarrow> string option \<Rightarrow> string option \<Rightarrow> 'w db \<Rightarrow> error + date option" where
  "main_start_date today args_range args_from_date d =
     (let graph_range = graph_range_of args_range d
      in if truthy args_from_date then some_date (strptime (the args_from_date))
         else if startswith graph_range ''from:'' then
           (case split (CHR '':'') graph_range of
              _ # x # _ \<Rightarrow> some_date (strptime x)
            | _ \<Rightarrow> Inl IndexError)
         else if graph_range = ''1m'' then some_date (date_sub today 30)
         else if graph_range = ''6m'' then some_date (date_sub today 180)
         else if graph_range = ''1y'' then some_date (date_sub today 365)
         else Inr None)"

section \<open>The trend line\<close>

text \<open>
  Modelled from the spec: the regression that \<open>generate_graph\<close> calls
  (\<open>LinearRegression().fit\<close> and \<open>predict\<close> of scikit-learn) is not among the sources.
  The specification describes it as the closed form of ordinary least squares in two
  variables, with slope zero in the degenerate case where the abscissae do not vary,
  which fails with \<open>ValidationError\<close> on an empty series. Floating-point numbers are
  idealised as reals. Sequences of unequal length are refused as well.
\<close>

definition mean :: "real list \<Rightarrow> real" where
  "mean xs = sum_list xs / real (length xs)"

definition LinearRegression_fit :: "real list \<Rightarrow> real list \<Rightarrow> error + (real \<times> real)" where
  "LinearRegression_fit X y =
     (if X = [] \<or> length X \<noteq> length y then Inl ValidationError
      else
        (let xm = mean X; ym = mean y;
             sxx = (\<Sum>x\<leftarrow>X. (x - xm) * (x - xm));
             sxy = (\<Sum>(x, v)\<leftarrow>zip X y. (x - xm) * (v - ym));
             coef = (if sxx = 0 then 0 else sxy / sxx);
             intercept = ym - coef * xm
         in Inr (coef, intercept)))"

definition predict :: "real \<times> real \<Rightarrow> real list \<Rightarrow> real list" where
  "predict model X = map (\<lambda>x. fst model * x + snd model) X"

text \<open>The sum of the squared vertical residuals of a line, which the fit minimises.\<close>

definition residuals :: "real \<times> real \<Rightarrow> real list \<Rightarrow> real list \<Rightarrow> real" where
  "residuals model X y = (\<Sum>(x, v)\<leftarrow>zip X y. (v - (fst model * x + snd model)) ^ 2)"

text \<open>
  What \<open>generate_graph\<close> computes before it draws: the fitted values, the slope and
  the change between the first and the last weight. The drawing is not modelled.
\<close>

record trend =
  trend_line :: "real list"
  slope :: real
  total_change :: real

definition generate_graph :: "date list \<Rightarrow> real list \<Rightarrow> error + trend" where
  "generate_graph dates ws =
     (let date_ordinals = map (\<lambda>dt. real_of_int (toordinal dt)) dates
      in case LinearRegression_fit date_ordinals ws of
           Inl e \<Rightarrow> Inl e
         | Inr model \<Rightarrow>
             (case ws of
                [] \<Rightarrow> Inl IndexError
              | _ # _ \<Rightarrow>
                  Inr \<lparr>trend_line = predict model date_ordinals,
                       slope = fst model,
                       total_change = last ws - hd ws\<rparr>))"

section \<open>Notions for the statements\<close>

text \<open>
  A zero-padded ISO date string is a text that \<open>strptime\<close> accepts and that \<open>isoformat\<close>
  gives back for the date it denotes; \<open>date_of\<close> is the date a row's text parses to;
  \<open>from_start\<close> is the \<open>WHERE\<close> condition of \<open>get_weights\<close> on the text of a row.
\<close>

definition iso_text :: "string \<Rightarrow> bool" where
  "iso_text s = (case strptime s of Inl e \<Rightarrow> False | Inr dt \<Rightarrow> isoformat dt = s)"

definition date_of :: "string \<times> 'w \<Rightarrow> date" where
  "date_of r = projr (strptime (fst r))"

definition from_start :: "date option \<Rightarrow> string \<Rightarrow> bool" where
  "from_start start s = (case start of None \<Rightarrow> True | Some st \<Rightarrow> isoformat st \<le> s)"

section \<open>Dates as text\<close>

subsection \<open>The digits of \<open>isoformat\<close>\<close>

lemma of_char_digit_char: "n < 10 \<Longrightarrow> of_char (digit_char n) = 48 + n"
  by (simp add: digit_char_def)

lemma digit_char_le: "a < 10 \<Longrightarrow> b < 10 \<Longrightarrow> digit_char a \<le> digit_char b \<longleftrightarrow> a \<le> b"
  by (simp add: less_eq_char_def of_char_digit_char)

lemma digit_char_less: "a < 10 \<Longrightarrow> b < 10 \<Longrightarrow> digit_char a < digit_char b \<longleftrightarrow> a < b"
  by (simp add: less_char_def of_char_digit_char)

lemma digit_char_eq: "a < 10 \<Longrightarrow> b < 10 \<Longrightarrow> digit_char a = digit_char b \<longleftrightarrow> a = b"
  by (metis digit_char_le order_antisym order_refl)

lemma decimal_1: "n < 10 \<Longrightarrow> decimal n = [digit_char n]"
  by (simp add: decimal.simps)

lemma decimal_2: "10 \<le> n \<Longrightarrow> n < 100 \<Longrightarrow> decimal n = [digit_char (n div 10), digit_char (n mod 10)]"
  by (subst decimal.simps) (simp add: decimal_1)

lemma decimal_3: "100 \<le> n \<Longrightarrow> n < 1000 \<Longrightarrow>
  decimal n = [digit_char (n div 100), digit_char (n div 10 mod 10), digit_char (n mod 10)]"
  by (subst decimal.simps) (simp add: decimal_2 div_mult2_eq[symmetric])

lemma decimal_4: "1000 \<le> n \<Longrightarrow> n < 10000 \<Longrightarrow>
  decimal n = [digit_char (n div 1000), digit_char (n div 100 mod 10), digit_char (n div 10 mod 10), digit_char (n mod 10)]"
  by (subst decimal.simps) (simp add: decimal_3 div_mult2_eq[symmetric])

lemma digit_char_0: "digit_char 0 = CHR ''0''"
  by code_simp

lemma replicate_small:
  "replicate (Suc 0) c = [c]" "replicate 2 c = [c, c]" "replicate 3 c = [c, c, c]"
  by (simp_all add: numeral_2_eq_2 numeral_3_eq_3)

lemma fmt_02d: "0 \<le> n \<Longrightarrow> n < 100 \<Longrightarrow>
  fmt_0d 2 n = [digit_char (nat n div 10), digit_char (nat n mod 10)]"
  by (cases "nat n < 10") (simp_all add: fmt_0d_def zfill_def decimal_1 decimal_2 digit_char_0 replicate_small)

lemma fmt_04d: "0 \<le> n \<Longrightarrow> n < 10000 \<Longrightarrow>
  fmt_0d 4 n = [digit_char (nat n div 1000), digit_char (nat n div 100 mod 10),
                digit_char (nat n div 10 mod 10), digit_char (nat n mod 10)]"
proof -
  assume a: "0 \<le> n" "n < 10000"
  consider "nat n < 10" | "10 \<le> nat n" "nat n < 100" | "100 \<le> nat n" "nat n < 1000"
    | "1000 \<le> nat n" "nat n < 10000" using a by linarith
  then show ?thesis
    by cases (use a in \<open>simp_all add: fmt_0d_def zfill_def decimal_1 decimal_2 decimal_3 decimal_4 digit_char_0 replicate_small\<close>)
qed



lemma append_le_same_length:
  "length u = length v \<Longrightarrow> u @ s \<le> v @ t \<longleftrightarrow> u < v \<or> (u = v \<and> s \<le> t)"
  by (induction u v rule: list_induct2) auto

lemma lex2:
  fixes a b a' b' :: nat
  assumes "b < 10" "b' < 10"
  shows "(a < a' \<or> a = a' \<and> b < b') \<longleftrightarrow> 10 * a + b < 10 * a' + b'"
  using assms by arith

lemma fmt_02d_less:
  assumes "0 \<le> x" "x < 100" "0 \<le> y" "y < 100"
  shows "fmt_0d 2 x < fmt_0d 2 y \<longleftrightarrow> x < y"
proof -
  have "fmt_0d 2 x < fmt_0d 2 y \<longleftrightarrow>
        10 * (nat x div 10) + nat x mod 10 < 10 * (nat y div 10) + nat y mod 10"
    using assms by (simp add: fmt_02d digit_char_less digit_char_eq lex2)
  then show ?thesis using assms by auto
qed

lemma fmt_02d_eq:
  assumes "0 \<le> x" "x < 100" "0 \<le> y" "y < 100"
  shows "fmt_0d 2 x = fmt_0d 2 y \<longleftrightarrow> x = y"
proof -
  have "fmt_0d 2 x = fmt_0d 2 y \<longleftrightarrow> nat x div 10 = nat y div 10 \<and> nat x mod 10 = nat y mod 10"
    using assms by (simp add: fmt_02d digit_char_eq)
  also have "\<dots> \<longleftrightarrow> nat x = nat y"
    by (metis div_mult_mod_eq)
  finally show ?thesis using assms by auto
qed


lemma lex100:
  fixes a b a' b' :: nat
  assumes "b < 100" "b' < 100"
  shows "(a < a' \<or> a = a' \<and> b < b') \<longleftrightarrow> 100 * a + b < 100 * a' + b'"
  using assms by arith

lemma lex1000:
  fixes a b a' b' :: nat
  assumes "b < 1000" "b' < 1000"
  shows "(a < a' \<or> a = a' \<and> b < b') \<longleftrightarrow> 1000 * a + b < 1000 * a' + b'"
  using assms by arith

lemma lex4:
  fixes a b c d a' b' c' d' :: nat
  assumes "b < 10" "b' < 10" "c < 10" "c' < 10" "d < 10" "d' < 10"
  shows "(a < a' \<or> a = a' \<and> (b < b' \<or> b = b' \<and> (c < c' \<or> c = c' \<and> d < d')))
     \<longleftrightarrow> 1000 * a + 100 * b + 10 * c + d < 1000 * a' + 100 * b' + 10 * c' + d'"
proof -
  have cd: "10 * c + d < 100" "10 * c' + d' < 100" using assms by simp_all
  have bcd: "100 * b + (10 * c + d) < 1000" "100 * b' + (10 * c' + d') < 1000"
    using assms by simp_all
  have "(c < c' \<or> c = c' \<and> d < d') \<longleftrightarrow> 10 * c + d < 10 * c' + d'"
    using assms by (simp add: lex2)
  moreover have "(b < b' \<or> b = b' \<and> 10 * c + d < 10 * c' + d')
      \<longleftrightarrow> 100 * b + (10 * c + d) < 100 * b' + (10 * c' + d')"
    using cd by (rule lex100)
  moreover have "(a < a' \<or> a = a' \<and> 100 * b + (10 * c + d) < 100 * b' + (10 * c' + d'))
      \<longleftrightarrow> 1000 * a + (100 * b + (10 * c + d)) < 1000 * a' + (100 * b' + (10 * c' + d'))"
    using bcd by (rule lex1000)
  ultimately show ?thesis by (simp add: add.assoc)
qed

lemma digits4:
  fixes n :: nat
  shows "n = 1000 * (n div 1000) + 100 * (n div 100 mod 10) + 10 * (n div 10 mod 10) + n mod 10"
proof -
  define q1 q2 q3 where "q1 = n div 10" and "q2 = n div 100" and "q3 = n div 1000"
  define d c b where "d = n mod 10" and "c = n div 10 mod 10" and "b = n div 100 mod 10"
  have 1: "n = 10 * q1 + d" by (simp add: q1_def d_def)
  have "n div 100 = n div 10 div 10" by (simp add: div_mult2_eq [symmetric])
  then have 2: "q1 = 10 * q2 + c" by (simp add: q1_def q2_def c_def)
  have "n div 1000 = n div 100 div 10" by (simp add: div_mult2_eq [symmetric])
  then have 3: "q2 = 10 * q3 + b" by (simp add: q3_def q2_def b_def)
  have "n = 1000 * q3 + 100 * b + 10 * c + d"
    using 1 2 3 by simp
  then show ?thesis by (simp add: q3_def b_def c_def d_def)
qed

lemma fmt_04d_less:
  assumes "0 \<le> x" "x < 10000" "0 \<le> y" "y < 10000"
  shows "fmt_0d 4 x < fmt_0d 4 y \<longleftrightarrow> x < y"
proof -
  have "fmt_0d 4 x < fmt_0d 4 y \<longleftrightarrow>
        1000 * (nat x div 1000) + 100 * (nat x div 100 mod 10) + 10 * (nat x div 10 mod 10) + nat x mod 10
      < 1000 * (nat y div 1000) + 100 * (nat y div 100 mod 10) + 10 * (nat y div 10 mod 10) + nat y mod 10"
    using assms by (simp add: fmt_04d digit_char_less digit_char_eq lex4)
  also have "\<dots> \<longleftrightarrow> nat x < nat y"
    using digits4 [of "nat x"] digits4 [of "nat y"] by simp
  finally show ?thesis using assms by auto
qed

lemma fmt_04d_eq:
  assumes "0 \<le> x" "x < 10000" "0 \<le> y" "y < 10000"
  shows "fmt_0d 4 x = fmt_0d 4 y \<longleftrightarrow> x = y"
proof -
  have "fmt_0d 4 x = fmt_0d 4 y \<longleftrightarrow>
       nat x div 1000 = nat y div 1000 \<and> nat x div 100 mod 10 = nat y div 100 mod 10 \<and>
       nat x div 10 mod 10 = nat y div 10 mod 10 \<and> nat x mod 10 = nat y mod 10"
    using assms by (simp add: fmt_04d digit_char_eq)
  also have "\<dots> \<longleftrightarrow> nat x = nat y"
    using digits4 [of "nat x"] digits4 [of "nat y"] by auto
  finally show ?thesis using assms by auto
qed

lemma length_fmt [simp]:
  "0 \<le> x \<Longrightarrow> x < 100 \<Longrightarrow> length (fmt_0d 2 x) = 2"
  "0 \<le> y \<Longrightarrow> y < 10000 \<Longrightarrow> length (fmt_0d 4 y) = 4"
  by (simp_all add: fmt_02d fmt_04d)

lemma days_in_month_le: "1 \<le> m \<Longrightarrow> m \<le> 12 \<Longrightarrow> days_in_month y m \<le> 31"
proof -
  assume "1 \<le> m" "m \<le> 12"
  then have "m = 1 \<or> m = 2 \<or> m = 3 \<or> m = 4 \<or> m = 5 \<or> m = 6 \<or> m = 7 \<or> m = 8 \<or> m = 9 \<or> m = 10 \<or> m = 11 \<or> m = 12"
    by arith
  then show ?thesis
    by (auto simp: days_in_month_def DAYS_IN_MONTH_def)
qed

lemma valid_date_bounds:
  "valid_date dt \<Longrightarrow> 0 \<le> year dt \<and> year dt < 10000 \<and> 0 \<le> month dt \<and> month dt < 100 \<and> 0 \<le> day dt \<and> day dt < 100"
  using days_in_month_le [of "month dt" "year dt"] by (auto simp: valid_date_def)

lemma fmt_02d_le:
  assumes "0 \<le> x" "x < 100" "0 \<le> y" "y < 100"
  shows "fmt_0d 2 x \<le> fmt_0d 2 y \<longleftrightarrow> x \<le> y"
proof -
  have "fmt_0d 2 x \<le> fmt_0d 2 y \<longleftrightarrow> fmt_0d 2 x < fmt_0d 2 y \<or> fmt_0d 2 x = fmt_0d 2 y"
    by (rule order_le_less)
  also have "\<dots> \<longleftrightarrow> x < y \<or> x = y"
    by (simp add: fmt_02d_less [OF assms] fmt_02d_eq [OF assms])
  finally show ?thesis by auto
qed

lemma isoformat_le:
  assumes "valid_date a" "valid_date b"
  shows "isoformat a \<le> isoformat b \<longleftrightarrow> date_le a b"
  using valid_date_bounds [OF assms(1)] valid_date_bounds [OF assms(2)]
  by (simp add: isoformat_def append_le_same_length fmt_04d_less fmt_04d_eq fmt_02d_less fmt_02d_eq
      fmt_02d_le date_le_def)

lemma digit_char_eq_char: "n < 10 \<Longrightarrow> digit_char n = c \<longleftrightarrow> 48 + n = of_char c"
  by (metis of_char_digit_char of_char_eq_iff)

lemma in_range_digit_char:
  "n < 10 \<Longrightarrow> in_range lo hi (digit_char n) \<longleftrightarrow> of_char lo \<le> 48 + n \<and> 48 + n \<le> of_char hi"
  by (simp add: in_range_def less_eq_char_def of_char_digit_char)

lemma is_digit_digit_char: "n < 10 \<Longrightarrow> is_digit (digit_char n)"
  by (simp add: is_digit_def in_range_digit_char)

lemma digit_val_digit_char: "n < 10 \<Longrightarrow> digit_val (digit_char n) = n"
  by (simp add: digit_val_def of_char_digit_char)

lemma re_m_digits:
  assumes "e < 10" "f < 10" "1 \<le> 10 * e + f" "10 * e + f \<le> 12"
  shows "re_m (digit_char e # digit_char f # CHR ''-'' # r) =
     ([digit_char e, digit_char f], CHR ''-'' # r) #
     (if e = 1 then [([digit_char e], digit_char f # CHR ''-'' # r)] else [])"
proof -
  have "e = 0 \<or> e = 1" using assms by arith
  then show ?thesis
    using assms by (auto simp: re_m_def in_range_digit_char digit_char_eq_char)
qed

lemma re_d_digits:
  assumes "g < 10" "h < 10" "1 \<le> 10 * g + h" "10 * g + h \<le> 31"
  shows "re_d [digit_char g, digit_char h] =
     ([digit_char g, digit_char h], []) #
     (if 1 \<le> g then [([digit_char g], [digit_char h])] else [])"
proof -
  have "g = 0 \<or> g = 1 \<or> g = 2 \<or> g = 3" using assms by arith
  then show ?thesis
    using assms by (auto simp: re_d_def in_range_digit_char digit_char_eq_char is_digit_digit_char)
qed

lemma int_of_str_2:
  "a < 10 \<Longrightarrow> b < 10 \<Longrightarrow> int_of_str [digit_char a, digit_char b] = int (10 * a + b)"
  by (simp add: int_of_str_def digit_val_digit_char digit_char_eq_char)

lemma int_of_str_4:
  "a < 10 \<Longrightarrow> b < 10 \<Longrightarrow> c < 10 \<Longrightarrow> d < 10 \<Longrightarrow>
   int_of_str [digit_char a, digit_char b, digit_char c, digit_char d]
     = int (1000 * a + 100 * b + 10 * c + d)"
  by (simp add: int_of_str_def digit_val_digit_char digit_char_eq_char)

lemma strptime_digits:
  assumes "a < 10" "b < 10" "c < 10" "d < 10" "e < 10" "f < 10" "g < 10" "h < 10"
    and "1 \<le> 10 * e + f" "10 * e + f \<le> 12" "1 \<le> 10 * g + h" "10 * g + h \<le> 31"
  shows "strptime [digit_char a, digit_char b, digit_char c, digit_char d, CHR ''-'',
                   digit_char e, digit_char f, CHR ''-'', digit_char g, digit_char h]
         = new_date (int (1000 * a + 100 * b + 10 * c + d)) (int (10 * e + f)) (int (10 * g + h))"
  using assms
  by (simp add: strptime_def format_regex_match_def is_digit_digit_char re_m_digits re_d_digits
      digit_char_eq_char int_of_str_2 int_of_str_4 del: of_nat_add of_nat_mult)

lemma new_date_fields: "valid_date dt \<Longrightarrow> new_date (year dt) (month dt) (day dt) = Inr dt"
  by (cases dt) (simp add: new_date_def)

lemma strptime_isoformat:
  assumes "valid_date dt"
  shows "strptime (isoformat dt) = Inr dt"
proof -
  note b = valid_date_bounds [OF assms]
  define y m d where "y = nat (year dt)" and "m = nat (month dt)" and "d = nat (day dt)"
  have ymd: "year dt = int y" "month dt = int m" "day dt = int d"
    using b by (simp_all add: y_def m_def d_def)
  have rng: "y < 10000" "1 \<le> m" "m \<le> 12" "1 \<le> d" "d \<le> 31"
    using assms days_in_month_le [of "month dt" "year dt"]
    by (auto simp: valid_date_def y_def m_def d_def)
  have iso: "isoformat dt =
      [digit_char (y div 1000), digit_char (y div 100 mod 10), digit_char (y div 10 mod 10),
       digit_char (y mod 10), CHR ''-'', digit_char (m div 10), digit_char (m mod 10), CHR ''-'',
       digit_char (d div 10), digit_char (d mod 10)]"
    using b by (simp add: isoformat_def fmt_04d fmt_02d y_def m_def d_def)
  have "strptime (isoformat dt) =
      new_date (int (1000 * (y div 1000) + 100 * (y div 100 mod 10) + 10 * (y div 10 mod 10) + y mod 10))
        (int (10 * (m div 10) + m mod 10)) (int (10 * (d div 10) + d mod 10))"
    unfolding iso using rng by (intro strptime_digits) simp_all
  also have "\<dots> = new_date (int y) (int m) (int d)"
    using digits4 [of y] by simp
  also have "\<dots> = Inr dt"
    using new_date_fields [OF assms] by (simp add: ymd)
  finally show ?thesis .
qed

lemma strptime_valid: "strptime s = Inr dt \<Longrightarrow> valid_date dt"
  by (auto simp: strptime_def new_date_def Let_def split: list.splits if_splits prod.splits)

subsection \<open>The day number respects the order of dates\<close>

lemma div_pred:
  fixes y k :: int
  assumes "0 < k"
  shows "(y - 1) div k = (if y mod k = 0 then y div k - 1 else y div k)"
proof (cases "y mod k = 0")
  case True
  have "y - 1 = k * (y div k - 1) + (k - 1)"
    using True mult_div_mod_eq [of k y] by (simp add: algebra_simps)
  then have "(y - 1) div k = y div k - 1"
    using assms int_div_pos_eq [of "y - 1" k "y div k - 1" "k - 1"] by simp
  with True show ?thesis by simp
next
  case False
  have pos: "0 < y mod k"
    using False pos_mod_sign [OF assms, of y] by simp
  have "y - 1 = k * (y div k) + (y mod k - 1)"
    using mult_div_mod_eq [of k y] by simp
  then have "(y - 1) div k = y div k"
    using pos pos_mod_bound [OF assms, of y] int_div_pos_eq [of "y - 1" k "y div k" "y mod k - 1"]
    by simp
  with False show ?thesis by simp
qed

lemma mod_chain:
  fixes y :: int
  shows "y mod 400 = 0 \<Longrightarrow> y mod 100 = 0" "y mod 100 = 0 \<Longrightarrow> y mod 4 = 0"
proof -
  have "(100::int) dvd 400" "(4::int) dvd 100" by simp_all
  then show "y mod 400 = 0 \<Longrightarrow> y mod 100 = 0" "y mod 100 = 0 \<Longrightarrow> y mod 4 = 0"
    by (metis dvd_trans dvd_eq_mod_eq_0)+
qed

lemma days_before_year_step:
  "days_before_year (y + 1) = days_before_year y + (if is_leap y then 366 else 365)"
  using mod_chain [of y]
  by (simp add: days_before_year_def div_pred is_leap_def)

lemma days_before_year_mono:
  "y \<le> y' \<Longrightarrow> days_before_year y \<le> days_before_year y'"
proof (induction y' rule: int_ge_induct)
  case base
  show ?case by simp
next
  case (step i)
  then show ?case by (simp add: days_before_year_step)
qed

lemma days_before_year_next:
  assumes "y < y'"
  shows "days_before_year y + (if is_leap y then 366 else 365) \<le> days_before_year y'"
  using days_before_year_mono [of "y + 1" y'] assms by (simp add: days_before_year_step)

lemma month_cases:
  fixes m :: int
  assumes "1 \<le> m" "m \<le> 12"
  shows "m = 1 \<or> m = 2 \<or> m = 3 \<or> m = 4 \<or> m = 5 \<or> m = 6 \<or> m = 7 \<or> m = 8 \<or> m = 9 \<or>
         m = 10 \<or> m = 11 \<or> m = 12"
  using assms by arith

lemma days_in_month_ge: "1 \<le> m \<Longrightarrow> m \<le> 12 \<Longrightarrow> 28 \<le> days_in_month y m"
  using month_cases [of m] by (auto simp: days_in_month_def DAYS_IN_MONTH_def)

lemma days_before_month_step:
  "1 \<le> m \<Longrightarrow> m < 12 \<Longrightarrow>
   days_before_month y (m + 1) = days_before_month y m + days_in_month y m"
  using month_cases [of m]
  by (auto simp: days_before_month_def days_in_month_def DAYS_BEFORE_MONTH_def DAYS_IN_MONTH_def)

lemma days_before_month_mono:
  "m \<le> m' \<Longrightarrow> 1 \<le> m \<Longrightarrow> m' \<le> 12 \<Longrightarrow> days_before_month y m \<le> days_before_month y m'"
proof (induction m' rule: int_ge_induct)
  case base
  show ?case by simp
next
  case (step i)
  then show ?case
    using days_in_month_ge [of i y] by (simp add: days_before_month_step)
qed

lemma day_of_year_le:
  assumes "1 \<le> m" "m \<le> 12" "d \<le> days_in_month y m"
  shows "days_before_month y m + d \<le> (if is_leap y then 366 else 365)"
  using month_cases [OF assms(1,2)] assms(3)
  by (auto simp: days_before_month_def days_in_month_def DAYS_BEFORE_MONTH_def DAYS_IN_MONTH_def)

lemma days_before_month_ge: "1 \<le> m \<Longrightarrow> m \<le> 12 \<Longrightarrow> 0 \<le> days_before_month y m"
  using month_cases [of m]
  by (auto simp: days_before_month_def DAYS_BEFORE_MONTH_def)

lemma toordinal_less:
  assumes a: "valid_date a" and b: "valid_date b" and lt: "date_lt a b"
  shows "toordinal a < toordinal b"
proof -
  from a have ma: "1 \<le> month a" "month a \<le> 12" and da: "1 \<le> day a"
    "day a \<le> days_in_month (year a) (month a)"
    by (simp_all add: valid_date_def)
  from b have mb: "1 \<le> month b" "month b \<le> 12" and db: "1 \<le> day b"
    by (simp_all add: valid_date_def)
  consider "year a < year b"
    | "year a = year b" "month a < month b"
    | "year a = year b" "month a = month b" "day a < day b"
    using lt by (auto simp: date_lt_def)
  then show ?thesis
  proof cases
    case 1
    have "toordinal a \<le> days_before_year (year a) + (if is_leap (year a) then 366 else 365)"
      using day_of_year_le [OF ma da(2)] by (simp add: toordinal_def ymd2ord_def)
    also have "\<dots> \<le> days_before_year (year b)"
      by (rule days_before_year_next [OF 1])
    also have "\<dots> < toordinal b"
      using days_before_month_ge [OF mb, of "year b"] db by (simp add: toordinal_def ymd2ord_def)
    finally show ?thesis .
  next
    case 2
    have "days_before_month (year a) (month a) + day a \<le> days_before_month (year a) (month a + 1)"
      using 2 ma mb da by (simp add: days_before_month_step)
    also have "\<dots> \<le> days_before_month (year a) (month b)"
      using 2 ma mb by (intro days_before_month_mono) simp_all
    finally show ?thesis
      using 2 db by (simp add: toordinal_def ymd2ord_def)
  next
    case 3
    then show ?thesis by (simp add: toordinal_def ymd2ord_def)
  qed
qed

lemma toordinal_le:
  assumes "valid_date a" "valid_date b"
  shows "toordinal a \<le> toordinal b \<longleftrightarrow> date_le a b"
proof
  assume le: "toordinal a \<le> toordinal b"
  show "date_le a b"
  proof (rule ccontr)
    assume "\<not> date_le a b"
    then have "date_lt b a" by (auto simp: date_le_def date_lt_def)
    then have "toordinal b < toordinal a" using assms by (intro toordinal_less)
    with le show False by simp
  qed
next
  assume "date_le a b"
  then have "date_lt a b \<or> (year a = year b \<and> month a = month b \<and> day a = day b)"
    unfolding date_le_def date_lt_def by linarith
  then consider "date_lt a b" | "year a = year b" "month a = month b" "day a = day b"
    by blast
  then show "toordinal a \<le> toordinal b"
  proof cases
    case 1
    then show ?thesis using toordinal_less [OF assms] by simp
  next
    case 2
    then show ?thesis by (simp add: toordinal_def)
  qed
qed

text \<open>
  C5. A zero-padded ISO date string is a string that \<open>strptime\<close> accepts and that
  \<open>isoformat\<close> gives back for the date it denotes. For two such strings, the byte-wise
  order of the text, which the filter \<open>date >= ?\<close> of \<open>get_weights\<close> uses, is the order of
  the dates they denote: as \<open>date\<close> objects compare, and as their day numbers compare.
\<close>

theorem iso_text_order:
  assumes "strptime s = Inr a" "isoformat a = s" "strptime t = Inr b" "isoformat b = t"
  shows "(s \<le> t \<longleftrightarrow> date_le a b) \<and> (s \<le> t \<longleftrightarrow> toordinal a \<le> toordinal b)"
  using isoformat_le [of a b] toordinal_le [of a b] assms by (simp add: strptime_valid)

theorem iso_text_order_witness:
  "(''2023-12-31'' \<le> ''2024-01-01'')
     = date_le \<lparr>year = 2023, month = 12, day = 31\<rparr> \<lparr>year = 2024, month = 1, day = 1\<rparr> \<and>
   (''2023-12-31'' \<le> ''2024-01-01'') = ((738885 :: int) \<le> 738886) \<and>
   date_le \<lparr>year = 2023, month = 12, day = 31\<rparr> \<lparr>year = 2024, month = 1, day = 1\<rparr>"
proof -
  have 1: "strptime ''2023-12-31'' = Inr \<lparr>year = 2023, month = 12, day = 31\<rparr>" by code_simp
  have 2: "isoformat \<lparr>year = 2023, month = 12, day = 31\<rparr> = ''2023-12-31''" by code_simp
  have 3: "strptime ''2024-01-01'' = Inr \<lparr>year = 2024, month = 1, day = 1\<rparr>" by code_simp
  have 4: "isoformat \<lparr>year = 2024, month = 1, day = 1\<rparr> = ''2024-01-01''" by code_simp
  have 5: "toordinal \<lparr>year = 2023, month = 12, day = 31\<rparr> = 738885"
    "toordinal \<lparr>year = 2024, month = 1, day = 1\<rparr> = 738886"
    by code_simp+
  show ?thesis using iso_text_order [OF 1 2 3 4] by (simp add: date_le_def 5)
qed

section \<open>The primary key of the tables\<close>

lemma insert_or_replace_keys:
  "distinct (map fst rows) \<Longrightarrow> distinct (map fst (insert_or_replace k v rows))"
  by (auto simp: insert_or_replace_def distinct_map_filter)

lemma log_weight_keys:
  "distinct (map fst (weights d)) \<Longrightarrow> distinct (map fst (weights (log_weight k v d)))"
  by (simp add: log_weight_def insert_or_replace_keys)

lemma insert_or_replace_same:
  "filter (\<lambda>r. fst r = k) (insert_or_replace k v rows) = [(k, v)]"
  by (simp add: insert_or_replace_def)

lemma insert_or_replace_other:
  "filter (\<lambda>r. fst r \<noteq> k) (insert_or_replace k v rows) = filter (\<lambda>r. fst r \<noteq> k) rows"
  by (simp add: insert_or_replace_def)

text \<open>
  C1. Logging \<open>(k, v1)\<close> and then \<open>(k, v2)\<close> leaves exactly one row for the date \<open>k\<close>,
  which holds \<open>v2\<close>; the rows of the other dates are those of the database before, in
  the same order, and the preferences are untouched.
\<close>

theorem log_weight_twice:
  "filter (\<lambda>r. fst r = k) (weights (log_weight k v2 (log_weight k v1 d))) = [(k, v2)] \<and>
   filter (\<lambda>r. fst r \<noteq> k) (weights (log_weight k v2 (log_weight k v1 d)))
     = filter (\<lambda>r. fst r \<noteq> k) (weights d) \<and>
   preferences (log_weight k v2 (log_weight k v1 d)) = preferences d"
  by (simp add: log_weight_def insert_or_replace_same insert_or_replace_other)

section \<open>The start date\<close>

lemma split_no_sep: "c \<notin> set x \<Longrightarrow> split c x = [x]"
  by (induction x) auto

lemma split_from: "CHR '':'' \<notin> set x \<Longrightarrow> split (CHR '':'') (''from:'' @ x) = [''from'', x]"
  by (simp add: split_no_sep)

lemma startswith_from: "startswith (''from:'' @ x) ''from:''"
  by (simp add: startswith_def)

text \<open>
  C3. The start date that \<open>main\<close> resolves. An explicit \<open>--from-date\<close> (not empty) is
  parsed and used, whatever the range tag. Otherwise the tag is the \<open>--range\<close> argument
  or, without one, the stored preference \<open>default_range\<close> (\<open>all\<close> when unset): \<open>1m\<close>,
  \<open>6m\<close> and \<open>1y\<close> give today minus 30, 180 and 365 days, by the subtraction of a
  \<open>timedelta\<close> from a \<open>date\<close>, which goes through the day number; \<open>from:x\<close> gives the
  date that \<open>x\<close> parses to; \<open>all\<close> and every other tag give no start date. With today
  2024-03-31 the tag \<open>1m\<close> gives 2024-03-01.
\<close>

theorem start_date_rules:
  fixes d :: "'w db"
  shows
  "(f \<noteq> [] \<longrightarrow> main_start_date today r (Some f) d = some_date (strptime f)) \<and>
   (t \<noteq> [] \<longrightarrow> graph_range_of (Some t) d = t) \<and>
   (\<not> truthy r \<longrightarrow> graph_range_of r d = get_preference ''default_range'' ''all'' d) \<and>
   (\<not> truthy fd \<longrightarrow>
      (graph_range_of r d = ''1m'' \<longrightarrow> main_start_date today r fd d = some_date (date_sub today 30)) \<and>
      (graph_range_of r d = ''6m'' \<longrightarrow> main_start_date today r fd d = some_date (date_sub today 180)) \<and>
      (graph_range_of r d = ''1y'' \<longrightarrow> main_start_date today r fd d = some_date (date_sub today 365)) \<and>
      (graph_range_of r d = ''from:'' @ x \<and> CHR '':'' \<notin> set x \<longrightarrow>
         main_start_date today r fd d = some_date (strptime x)) \<and>
      (graph_range_of r d = ''all'' \<longrightarrow> main_start_date today r fd d = Inr None) \<and>
      (\<not> startswith (graph_range_of r d) ''from:'' \<and> graph_range_of r d \<notin> {''1m'', ''6m'', ''1y''} \<longrightarrow>
         main_start_date today r fd d = Inr None)) \<and>
   (0 < toordinal today - k \<and> toordinal today - k \<le> MAXORDINAL \<longrightarrow>
      date_sub today k = fromordinal (toordinal today - k)) \<and>
   main_start_date \<lparr>year = 2024, month = 3, day = 31\<rparr> (Some ''1m'') None d
     = Inr (Some \<lparr>year = 2024, month = 3, day = 1\<rparr>)"
proof -
  have ex: "date_sub \<lparr>year = 2024, month = 3, day = 31\<rparr> 30 = Inr \<lparr>year = 2024, month = 3, day = 1\<rparr>"
    by code_simp
  have 1: "f \<noteq> [] \<longrightarrow> main_start_date today r (Some f) d = some_date (strptime f)"
    by (simp add: main_start_date_def truthy_def)
  have 2: "t \<noteq> [] \<longrightarrow> graph_range_of (Some t) d = t"
    by (simp add: graph_range_of_def truthy_def)
  have 3: "\<not> truthy r \<longrightarrow> graph_range_of r d = get_preference ''default_range'' ''all'' d"
    by (simp add: graph_range_of_def)
  have 4: "\<not> truthy fd \<longrightarrow>
      (graph_range_of r d = ''1m'' \<longrightarrow> main_start_date today r fd d = some_date (date_sub today 30)) \<and>
      (graph_range_of r d = ''6m'' \<longrightarrow> main_start_date today r fd d = some_date (date_sub today 180)) \<and>
      (graph_range_of r d = ''1y'' \<longrightarrow> main_start_date today r fd d = some_date (date_sub today 365)) \<and>
      (graph_range_of r d = ''from:'' @ x \<and> CHR '':'' \<notin> set x \<longrightarrow>
         main_start_date today r fd d = some_date (strptime x)) \<and>
      (graph_range_of r d = ''all'' \<longrightarrow> main_start_date today r fd d = Inr None) \<and>
      (\<not> startswith (graph_range_of r d) ''from:'' \<and> graph_range_of r d \<notin> {''1m'', ''6m'', ''1y''} \<longrightarrow>
         main_start_date today r fd d = Inr None)"
    by (auto simp: main_start_date_def startswith_def split_no_sep)
  have 5: "0 < toordinal today - k \<and> toordinal today - k \<le> MAXORDINAL \<longrightarrow>
      date_sub today k = fromordinal (toordinal today - k)"
    by (simp add: date_sub_def date_add_def)
  have 6: "main_start_date \<lparr>year = 2024, month = 3, day = 31\<rparr> (Some ''1m'') None d
     = Inr (Some \<lparr>year = 2024, month = 3, day = 1\<rparr>)"
    by (simp add: main_start_date_def graph_range_of_def truthy_def startswith_def ex some_date_def)
  show ?thesis using 1 2 3 4 5 6 by blast
qed

theorem start_date_rules_witness:
  "main_start_date \<lparr>year = 2024, month = 3, day = 31\<rparr> (Some ''6m'') None (init_db None :: real db)
     = Inr (Some \<lparr>year = 2023, month = 10, day = 3\<rparr>) \<and>
   main_start_date \<lparr>year = 2024, month = 3, day = 31\<rparr> (Some ''1y'') None (init_db None :: real db)
     = Inr (Some \<lparr>year = 2023, month = 4, day = 1\<rparr>) \<and>
   main_start_date \<lparr>year = 2024, month = 3, day = 31\<rparr> None None
       \<lparr>weights = [] :: (string \<times> real) list, preferences = [(''default_range'', ''from:2023-01-01'')]\<rparr>
     = Inr (Some \<lparr>year = 2023, month = 1, day = 1\<rparr>) \<and>
   main_start_date \<lparr>year = 2024, month = 3, day = 31\<rparr> (Some ''1m'') (Some ''2022-06-15'')
       (init_db None :: real db)
     = Inr (Some \<lparr>year = 2022, month = 6, day = 15\<rparr>) \<and>
   main_start_date \<lparr>year = 2024, month = 3, day = 31\<rparr> None None (init_db None :: real db) = Inr None \<and>
   date_sub \<lparr>year = 2024, month = 3, day = 31\<rparr> 30 = fromordinal 738946"
proof -
  let ?T = "\<lparr>year = 2024, month = 3, day = 31\<rparr>"
  let ?D = "init_db None :: real db"
  let ?P = "\<lparr>weights = [] :: (string \<times> real) list,
             preferences = [(''default_range'', ''from:2023-01-01'')]\<rparr>"
  have sub: "date_sub ?T 180 = Inr \<lparr>year = 2023, month = 10, day = 3\<rparr>"
    "date_sub ?T 365 = Inr \<lparr>year = 2023, month = 4, day = 1\<rparr>"
    by code_simp+
  have parse: "strptime ''2023-01-01'' = Inr \<lparr>year = 2023, month = 1, day = 1\<rparr>"
    "strptime ''2022-06-15'' = Inr \<lparr>year = 2022, month = 6, day = 15\<rparr>"
    by code_simp+
  have ord: "toordinal ?T = 738976" "MAXORDINAL = 3652059"
    by code_simp+
  have tags: "graph_range_of (Some ''6m'') ?D = ''6m''" "graph_range_of (Some ''1y'') ?D = ''1y''"
    "graph_range_of None ?P = ''from:'' @ ''2023-01-01''" "graph_range_of None ?D = ''all''"
    by (simp_all add: graph_range_of_def truthy_def get_preference_def init_db_def)
  have none: "\<not> truthy None"
    by (simp add: truthy_def)
  show ?thesis
    using start_date_rules [where today = ?T and r = "Some ''6m''" and fd = None and d = ?D]
      start_date_rules [where today = ?T and r = "Some ''1y''" and fd = None and d = ?D]
      start_date_rules [where today = ?T and r = None and fd = None and d = ?P
        and x = "''2023-01-01''"]
      start_date_rules [where today = ?T and r = "Some ''1m''" and f = "''2022-06-15''" and d = ?D]
      start_date_rules [where today = ?T and r = None and fd = None and d = ?D and k = 30]
    by (simp add: sub parse ord tags none some_date_def)
qed

section \<open>The fit is a least-squares line\<close>

text \<open>
  The modelled regression does what the specification asks of it: no line has a smaller
  sum of squared vertical residuals than the fitted one.
\<close>

lemma sum_list_sub_const:
  fixes m :: real
  shows "(\<Sum>x\<leftarrow>xs. x - m) = sum_list xs - real (length xs) * m"
  by (induction xs) (simp_all add: algebra_simps)

lemma sum_list_centred:
  assumes "xs \<noteq> []"
  shows "(\<Sum>x\<leftarrow>xs. x - mean xs) = 0"
  using assms by (simp add: sum_list_sub_const mean_def)

lemma sum_list_zip_fst:
  "length X = length y \<Longrightarrow> (\<Sum>(x, v)\<leftarrow>zip X y. f x) = (\<Sum>x\<leftarrow>X. f x)"
  by (induction X y rule: list_induct2) simp_all

lemma sum_list_zip_snd:
  "length X = length y \<Longrightarrow> (\<Sum>(x, v)\<leftarrow>zip X y. f v) = (\<Sum>v\<leftarrow>y. f v)"
  by (induction X y rule: list_induct2) simp_all

lemma sum_list_split:
  fixes a c xm ym :: real and ps :: "(real \<times> real) list"
  shows "(\<Sum>(x, v)\<leftarrow>ps. (v - ym) ^ 2 - 2 * a * ((x - xm) * (v - ym)) + a ^ 2 * ((x - xm) * (x - xm))
        + c ^ 2 + 2 * c * (v - ym) - 2 * c * a * (x - xm))
     = (\<Sum>(x, v)\<leftarrow>ps. (v - ym) ^ 2)
       - 2 * a * (\<Sum>(x, v)\<leftarrow>ps. (x - xm) * (v - ym))
       + a ^ 2 * (\<Sum>(x, v)\<leftarrow>ps. (x - xm) * (x - xm))
       + real (length ps) * c ^ 2
       + 2 * c * (\<Sum>(x, v)\<leftarrow>ps. v - ym)
       - 2 * c * a * (\<Sum>(x, v)\<leftarrow>ps. x - xm)"
proof (induction ps)
  case Nil
  show ?case by simp
next
  case (Cons p ps)
  obtain x v where p: "p = (x, v)" by (cases p)
  show ?case
    unfolding p list.map sum_list.Cons prod.case Cons.IH list.size
    by (simp add: algebra_simps)
qed

lemma residuals_expand:
  assumes len: "length X = length y" and ne: "X \<noteq> []"
  shows "residuals (a, b) X y =
           (\<Sum>v\<leftarrow>y. (v - mean y) ^ 2)
           - 2 * a * (\<Sum>(x, v)\<leftarrow>zip X y. (x - mean X) * (v - mean y))
           + a ^ 2 * (\<Sum>x\<leftarrow>X. (x - mean X) * (x - mean X))
           + real (length X) * (mean y - a * mean X - b) ^ 2"
proof -
  define xm ym c where "xm = mean X" and "ym = mean y" and "c = mean y - a * mean X - b"
  have pt: "(v - (a * x + b)) ^ 2 =
        (v - ym) ^ 2 - 2 * a * ((x - xm) * (v - ym)) + a ^ 2 * ((x - xm) * (x - xm))
        + c ^ 2 + 2 * c * (v - ym) - 2 * c * a * (x - xm)" for x v
    by (simp add: c_def xm_def ym_def power2_eq_square algebra_simps)
  have yne: "y \<noteq> []" using len ne by auto
  have "residuals (a, b) X y =
      (\<Sum>(x, v)\<leftarrow>zip X y. (v - ym) ^ 2 - 2 * a * ((x - xm) * (v - ym)) + a ^ 2 * ((x - xm) * (x - xm))
        + c ^ 2 + 2 * c * (v - ym) - 2 * c * a * (x - xm))"
    by (simp add: residuals_def pt)
  also note sum_list_split
  finally show ?thesis
    using len sum_list_centred [OF ne] sum_list_centred [OF yne]
    by (simp add: sum_list_zip_fst sum_list_zip_snd xm_def ym_def c_def)
qed

lemma sum_list_all_zero:
  fixes f :: "'a \<Rightarrow> real"
  shows "\<forall>p\<in>set ps. f p = 0 \<Longrightarrow> sum_list (map f ps) = 0"
  by (induction ps) simp_all

lemma centred_products_zero:
  fixes X y :: "real list"
  assumes "(\<Sum>x\<leftarrow>X. (x - m) * (x - m)) = 0"
  shows "(\<Sum>(x, v)\<leftarrow>zip X y. (x - m) * (v - k)) = 0"
proof -
  have "\<forall>x\<in>set X. (x - m) * (x - m) = 0"
    using assms by (subst (asm) sum_list_nonneg_eq_0_iff) auto
  then have z: "\<forall>x\<in>set X. x - m = 0" by simp
  have "\<forall>p\<in>set (zip X y). (case p of (x, v) \<Rightarrow> (x - m) * (v - k)) = 0"
    using z by (auto dest: set_zip_leftD)
  then show ?thesis
    by (rule sum_list_all_zero)
qed

lemma fit_least_squares:
  assumes "LinearRegression_fit X y = Inr model"
  shows "residuals model X y \<le> residuals (a, b) X y"
proof -
  define sxx sxy where "sxx = (\<Sum>x\<leftarrow>X. (x - mean X) * (x - mean X))"
    and "sxy = (\<Sum>(x, v)\<leftarrow>zip X y. (x - mean X) * (v - mean y))"
  define coef where "coef = (if sxx = 0 then 0 else sxy / sxx)"
  from assms have ne: "X \<noteq> []" and len: "length X = length y"
    and model: "model = (coef, mean y - coef * mean X)"
    by (auto simp: LinearRegression_fit_def Let_def coef_def sxx_def sxy_def split: if_splits)
  have nonneg: "0 \<le> sxx"
    unfolding sxx_def by (rule sum_list_nonneg) auto
  have key: "coef ^ 2 * sxx - 2 * coef * sxy \<le> a ^ 2 * sxx - 2 * a * sxy"
  proof (cases "sxx = 0")
    case True
    then have "sxy = 0"
      unfolding sxx_def sxy_def by (rule centred_products_zero)
    with True show ?thesis by (simp add: coef_def)
  next
    case False
    with nonneg have pos: "0 < sxx" by simp
    have "0 \<le> (a * sxx - sxy) ^ 2 / sxx"
      using pos by simp
    also have "(a * sxx - sxy) ^ 2 / sxx = a ^ 2 * sxx - 2 * a * sxy + sxy ^ 2 / sxx"
      using pos by (simp add: field_simps power2_eq_square)
    finally have "- (sxy ^ 2 / sxx) \<le> a ^ 2 * sxx - 2 * a * sxy" by simp
    moreover have "coef ^ 2 * sxx - 2 * coef * sxy = - (sxy ^ 2 / sxx)"
      using pos by (simp add: coef_def field_simps power2_eq_square)
    ultimately show ?thesis by simp
  qed
  have "residuals model X y = (\<Sum>v\<leftarrow>y. (v - mean y) ^ 2) - 2 * coef * sxy + coef ^ 2 * sxx"
    unfolding model by (simp add: residuals_expand [OF len ne] sxx_def sxy_def)
  also have "\<dots> \<le> (\<Sum>v\<leftarrow>y. (v - mean y) ^ 2) - 2 * a * sxy + a ^ 2 * sxx"
    using key by simp
  also have "\<dots> \<le> (\<Sum>v\<leftarrow>y. (v - mean y) ^ 2) - 2 * a * sxy + a ^ 2 * sxx
      + real (length X) * (mean y - a * mean X - b) ^ 2"
    by simp
  also have "\<dots> = residuals (a, b) X y"
    by (simp add: residuals_expand [OF len ne] sxx_def sxy_def)
  finally show ?thesis .
qed

section \<open>The trend of a series\<close>

text \<open>
  C6. For a series of one measurement \<open>(dt, v)\<close> the slope is \<open>0\<close> and the fitted value
  at \<open>dt\<close> is \<open>v\<close>; the change between first and last weight is \<open>0\<close>.
\<close>

theorem single_point_trend:
  "generate_graph [dt] [v] = Inr \<lparr>trend_line = [v], slope = 0, total_change = 0\<rparr>"
  by (simp add: generate_graph_def LinearRegression_fit_def mean_def predict_def)

text \<open>
  C9. On an empty series the fit is refused with \<open>ValidationError\<close>, before anything
  else is computed.
\<close>

theorem empty_series_trend: "generate_graph [] ws = Inl ValidationError"
  by (simp add: generate_graph_def LinearRegression_fit_def)

subsection \<open>The scenario of three weekly measurements\<close>

lemma strptime_jan:
  "strptime ''2024-01-01'' = Inr \<lparr>year = 2024, month = 1, day = 1\<rparr>"
  "strptime ''2024-01-08'' = Inr \<lparr>year = 2024, month = 1, day = 8\<rparr>"
  "strptime ''2024-01-15'' = Inr \<lparr>year = 2024, month = 1, day = 15\<rparr>"
  by code_simp+

lemma toordinal_jan:
  "toordinal \<lparr>year = 2024, month = 1, day = 1\<rparr> = 738886"
  "toordinal \<lparr>year = 2024, month = 1, day = 8\<rparr> = 738893"
  "toordinal \<lparr>year = 2024, month = 1, day = 15\<rparr> = 738900"
  by code_simp+

lemma scenario_query:
  "get_weights None
     (log_weight ''2024-01-15'' 176 (log_weight ''2024-01-08'' 178
       (log_weight ''2024-01-01'' (180::real) (init_db None))))
   = Inr ([\<lparr>year = 2024, month = 1, day = 1\<rparr>, \<lparr>year = 2024, month = 1, day = 8\<rparr>,
           \<lparr>year = 2024, month = 1, day = 15\<rparr>], [180, 178, 176])"
  by (simp add: get_weights_def select_weights_def log_weight_def insert_or_replace_def
      init_db_def strptime_jan)

lemma scenario_trend:
  "generate_graph
     [\<lparr>year = 2024, month = 1, day = 1\<rparr>, \<lparr>year = 2024, month = 1, day = 8\<rparr>,
      \<lparr>year = 2024, month = 1, day = 15\<rparr>] [180, 178, 176]
   = Inr \<lparr>trend_line = [180, 178, 176], slope = - (2 / 7), total_change = - 4\<rparr>"
  by (simp add: generate_graph_def LinearRegression_fit_def mean_def predict_def toordinal_jan)

text \<open>
  C7, as stated, fails: the three measurements lie on a line that falls by 2 lbs in
  7 days, so the slope of the fit is \<open>- 2 / 7\<close>, about \<open>- 0.29\<close> lbs/day. It is more than
  \<open>0.28\<close> away from \<open>- 0.57\<close>, which is the total change divided by 7.
\<close>

theorem scenario_slope_counterexample:
  "slope (projr (generate_graph
     [\<lparr>year = 2024, month = 1, day = 1\<rparr>, \<lparr>year = 2024, month = 1, day = 8\<rparr>,
      \<lparr>year = 2024, month = 1, day = 15\<rparr>] [180, 178, 176])) = - (2 / 7) \<and>
   0.28 < \<bar>slope (projr (generate_graph
     [\<lparr>year = 2024, month = 1, day = 1\<rparr>, \<lparr>year = 2024, month = 1, day = 8\<rparr>,
      \<lparr>year = 2024, month = 1, day = 15\<rparr>] [180, 178, 176])) - (- 0.57)\<bar>"
  by (simp add: scenario_trend)

text \<open>
  C7, amended. After the three measurements are logged into an empty database, the
  query without a start date returns the three points in ascending order of date; on
  that series the slope is \<open>- 2 / 7\<close> (the graph shows \<open>-0.29\<close>), the fitted values are the
  measurements themselves and the total change, last weight minus first weight, is
  \<open>- 4\<close>.
\<close>

theorem scenario_trend_result:
  "get_weights None
     (log_weight ''2024-01-15'' 176 (log_weight ''2024-01-08'' 178
       (log_weight ''2024-01-01'' (180::real) (init_db None))))
   = Inr ([\<lparr>year = 2024, month = 1, day = 1\<rparr>, \<lparr>year = 2024, month = 1, day = 8\<rparr>,
           \<lparr>year = 2024, month = 1, day = 15\<rparr>], [180, 178, 176]) \<and>
   generate_graph
     [\<lparr>year = 2024, month = 1, day = 1\<rparr>, \<lparr>year = 2024, month = 1, day = 8\<rparr>,
      \<lparr>year = 2024, month = 1, day = 15\<rparr>] [180, 178, 176]
   = Inr \<lparr>trend_line = [180, 178, 176], slope = - (2 / 7), total_change = - 4\<rparr> \<and>
   \<bar>- (2 / 7) - (- 0.29)\<bar> < (0.005 :: real)"
  by (simp add: scenario_query scenario_trend)

section \<open>The query\<close>

lemma iso_textD:
  assumes "iso_text s"
  obtains dt where "strptime s = Inr dt" "isoformat dt = s" "valid_date dt"
  using assms by (auto simp: iso_text_def strptime_valid split: sum.splits)

lemma iso_text_isoformat: "valid_date dt \<Longrightarrow> iso_text (isoformat dt)"
  by (simp add: iso_text_def strptime_isoformat)

lemma isoformat_less:
  assumes "valid_date a" "valid_date b"
  shows "isoformat a < isoformat b \<longleftrightarrow> date_lt a b"
proof -
  have "isoformat a < isoformat b \<longleftrightarrow> \<not> isoformat b \<le> isoformat a"
    by (rule less_le_not_le [THEN trans]) auto
  also have "\<dots> \<longleftrightarrow> \<not> date_le b a"
    by (simp add: isoformat_le assms)
  also have "\<dots> \<longleftrightarrow> date_lt a b"
    by (auto simp: date_le_def date_lt_def)
  finally show ?thesis .
qed

lemma strptime_error: "strptime s = Inl e \<Longrightarrow> e = ValidationError"
  by (auto simp: strptime_def new_date_def Let_def split: list.splits if_splits prod.splits)

lemma parse_dates_Inl:
  "parse_dates rows = Inl e \<longleftrightarrow> e = ValidationError \<and> (\<exists>r\<in>set rows. strptime (fst r) = Inl ValidationError)"
  by (induction rows) (auto split: sum.splits dest: strptime_error)

lemma parse_dates_ok:
  "\<forall>r\<in>set rows. \<exists>dt. strptime (fst r) = Inr dt \<Longrightarrow> parse_dates rows = Inr (map date_of rows)"
  by (induction rows) (auto simp: date_of_def)

lemma parse_dates_Inr_date_of:
  "parse_dates rows = Inr ds \<Longrightarrow> ds = map date_of rows \<and> (\<forall>r\<in>set rows. strptime (fst r) = Inr (date_of r))"
  by (induction rows arbitrary: ds) (auto simp: date_of_def split: sum.splits)

lemma set_select_weights:
  "set (select_weights start d) = {r \<in> set (weights d). from_start start (fst r)}"
  by (auto simp: select_weights_def from_start_def split: option.splits)

lemma sorted_select_weights: "sorted (map fst (select_weights start d))"
  by (simp add: select_weights_def split: option.splits)

lemma distinct_map_sort_key: "distinct (map f (sort_key g xs)) = distinct (map f xs)"
  by (simp add: distinct_map)

lemma distinct_select_weights:
  "distinct (map fst (weights d)) \<Longrightarrow> distinct (map fst (select_weights start d))"
  by (auto simp: select_weights_def distinct_map_sort_key distinct_map_filter split: option.splits)

lemma zip_map_same: "zip (map f xs) (map g xs) = map (\<lambda>x. (f x, g x)) xs"
  by (induction xs) auto

lemma sorted_wrt_select_weights:
  assumes "distinct (map fst (weights d))"
  shows "sorted_wrt (\<lambda>a b. fst a < fst b) (select_weights start d)"
proof -
  have "sorted_wrt (<) (map fst (select_weights start d))"
    using sorted_select_weights [of start d] distinct_select_weights [OF assms, of start]
    by (simp add: strict_sorted_iff)
  then show ?thesis by (simp add: sorted_wrt_map)
qed

text \<open>
  C2, amended. When every date of the table is a zero-padded ISO date string (and the
  dates are distinct, which the primary key ensures), \<open>get_weights\<close> returns, for every
  optional start date: the dates and weights are paired, the pairs are exactly the
  measurements whose date is at or after the start date (all of them without one), the
  dates ascend strictly, and when no measurement matches the result is a pair of empty
  lists, not an error.
\<close>

theorem get_weights_iso:
  assumes iso: "\<forall>r\<in>set (weights d). iso_text (fst r)"
    and key: "distinct (map fst (weights d))"
    and start: "\<forall>st. start = Some st \<longrightarrow> valid_date st"
  shows "\<exists>dates ws. get_weights start d = Inr (dates, ws) \<and>
           length dates = length ws \<and>
           set (zip dates ws) =
             {(dt, w). valid_date dt \<and> (isoformat dt, w) \<in> set (weights d) \<and>
                       (\<forall>st. start = Some st \<longrightarrow> date_le st dt)} \<and>
           sorted_wrt date_lt dates \<and>
           ({(dt, w). valid_date dt \<and> (isoformat dt, w) \<in> set (weights d) \<and>
                       (\<forall>st. start = Some st \<longrightarrow> date_le st dt)} = {} \<longrightarrow> dates = [] \<and> ws = [])"
proof -
  define rows where "rows = select_weights start d"
  let ?M = "{(dt, w). valid_date dt \<and> (isoformat dt, w) \<in> set (weights d) \<and>
                       (\<forall>st. start = Some st \<longrightarrow> date_le st dt)}"
  have rows: "set rows = {r \<in> set (weights d). from_start start (fst r)}"
    by (simp add: rows_def set_select_weights)
  have rows_iso: "iso_text (fst r)" if "r \<in> set rows" for r
    using that iso rows by auto
  have parse: "strptime (fst r) = Inr (date_of r) \<and> isoformat (date_of r) = fst r \<and> valid_date (date_of r)"
    if "r \<in> set rows" for r
    using rows_iso [OF that] by (auto elim!: iso_textD simp: date_of_def)
  have flt: "from_start start (isoformat dt) \<longleftrightarrow> (\<forall>st. start = Some st \<longrightarrow> date_le st dt)"
    if "valid_date dt" for dt
    using start that by (cases start) (simp_all add: from_start_def isoformat_le)
  have "parse_dates rows = Inr (map date_of rows)"
    by (rule parse_dates_ok) (use parse in blast)
  then have gw: "get_weights start d = Inr (map date_of rows, map snd rows)"
    by (simp add: get_weights_def rows_def Let_def)
  have zip: "zip (map date_of rows) (map snd rows) = map (\<lambda>r. (date_of r, snd r)) rows"
    by (rule zip_map_same)
  have set_eq: "set (zip (map date_of rows) (map snd rows)) = ?M"
  proof (intro set_eqI iffI)
    fix p assume "p \<in> set (zip (map date_of rows) (map snd rows))"
    then obtain r where r: "r \<in> set rows" "p = (date_of r, snd r)"
      by (auto simp: zip)
    have "(isoformat (date_of r), snd r) = r"
      using parse [OF r(1)] by (cases r) simp
    moreover have "from_start start (isoformat (date_of r))"
      using r(1) rows parse [OF r(1)] by simp
    ultimately show "p \<in> ?M"
      using r rows parse [OF r(1)] flt [of "date_of r"] by auto
  next
    fix p assume "p \<in> ?M"
    then obtain dt w where p: "p = (dt, w)" "valid_date dt" "(isoformat dt, w) \<in> set (weights d)"
      "\<forall>st. start = Some st \<longrightarrow> date_le st dt"
      by auto
    then have "(isoformat dt, w) \<in> set rows"
      using flt [of dt] by (simp add: rows)
    moreover have "date_of (isoformat dt, w) = dt"
      by (simp add: date_of_def strptime_isoformat p(2))
    ultimately show "p \<in> set (zip (map date_of rows) (map snd rows))"
      by (force simp: zip p(1))
  qed
  have "sorted_wrt (\<lambda>a b. fst a < fst b) rows"
    unfolding rows_def by (rule sorted_wrt_select_weights [OF key])
  then have "sorted_wrt (\<lambda>a b. date_lt (date_of a) (date_of b)) rows"
  proof (rule sorted_wrt_mono_rel [rotated])
    fix a b assume ab: "a \<in> set rows" "b \<in> set rows" "fst a < fst b"
    then have lt: "isoformat (date_of a) < isoformat (date_of b)"
      using parse by simp
    have va: "valid_date (date_of a)" and vb: "valid_date (date_of b)"
      using parse ab by blast+
    show "date_lt (date_of a) (date_of b)"
      using isoformat_less [OF va vb] lt by blast
  qed
  then have sorted: "sorted_wrt date_lt (map date_of rows)"
    by (simp add: sorted_wrt_map)
  have empty: "?M = {} \<longrightarrow> map date_of rows = [] \<and> map snd rows = []"
  proof
    assume "?M = {}"
    then have "set (map (\<lambda>r. (date_of r, snd r)) rows) = {}"
      using set_eq zip by simp
    then have "rows = []" by simp
    then show "map date_of rows = [] \<and> map snd rows = []" by simp
  qed
  show ?thesis
    using gw set_eq sorted empty by (intro exI [of _ "map date_of rows"] exI [of _ "map snd rows"]) simp
qed

lemma weights_three:
  "weights (log_weight ''2024-01-15'' 176 (log_weight ''2024-01-08'' 178
       (log_weight ''2024-01-01'' (180::real) (init_db None))))
   = [(''2024-01-01'', 180), (''2024-01-08'', 178), (''2024-01-15'', 176)]"
  by (simp add: log_weight_def insert_or_replace_def init_db_def)

lemma iso_text_jan: "iso_text ''2024-01-01''" "iso_text ''2024-01-08''" "iso_text ''2024-01-15''"
  by code_simp+

lemma isoformat_jan08: "isoformat \<lparr>year = 2024, month = 1, day = 8\<rparr> = ''2024-01-08''"
  by code_simp

theorem get_weights_iso_witness:
  "\<exists>dates ws.
     get_weights (Some \<lparr>year = 2024, month = 1, day = 8\<rparr>)
       (log_weight ''2024-01-15'' 176 (log_weight ''2024-01-08'' 178
         (log_weight ''2024-01-01'' (180::real) (init_db None)))) = Inr (dates, ws) \<and>
     length dates = length ws \<and>
     set (zip dates ws) = {(\<lparr>year = 2024, month = 1, day = 8\<rparr>, 178), (\<lparr>year = 2024, month = 1, day = 15\<rparr>, 176)} \<and>
     sorted_wrt date_lt dates"
proof -
  let ?d = "log_weight ''2024-01-15'' 176 (log_weight ''2024-01-08'' 178
         (log_weight ''2024-01-01'' (180::real) (init_db None)))"
  let ?s = "\<lparr>year = 2024, month = 1, day = 8\<rparr>"
  have iso: "\<forall>r\<in>set (weights ?d). iso_text (fst r)"
    by (simp add: weights_three iso_text_jan)
  have key: "distinct (map fst (weights ?d))"
    by (simp add: weights_three)
  have start: "\<forall>st. Some ?s = Some st \<longrightarrow> valid_date st"
    by (simp add: valid_date_def days_in_month_def DAYS_IN_MONTH_def)
  have gw: "get_weights (Some ?s) ?d
      = Inr ([\<lparr>year = 2024, month = 1, day = 8\<rparr>, \<lparr>year = 2024, month = 1, day = 15\<rparr>], [178, 176])"
    by (simp add: get_weights_def select_weights_def weights_three strptime_jan isoformat_jan08)
  show ?thesis
    using get_weights_iso [OF iso key start] by (auto simp: gw)
qed

lemma get_weights_rows:
  "get_weights start d = Inr (dates, ws) \<longleftrightarrow>
     parse_dates (select_weights start d) = Inr dates \<and> ws = map snd (select_weights start d)"
  by (auto simp: get_weights_def Let_def split: sum.splits)

text \<open>
  C2, as stated for every state of the store, fails. \<open>log_weight\<close> stores any text, and
  \<open>strptime\<close> accepts months and days without a leading zero: with the rows \<open>2024-1-5\<close>
  and \<open>2024-01-10\<close> the query without a start date returns 10 January before 5 January,
  the query from 8 January returns the measurement of 5 January, and a row whose text
  is not a date makes the query raise.
\<close>

theorem get_weights_unpadded_counterexample:
  "get_weights None (log_weight ''2024-01-10'' 171 (log_weight ''2024-1-5'' (170::real) (init_db None)))
     = Inr ([\<lparr>year = 2024, month = 1, day = 10\<rparr>, \<lparr>year = 2024, month = 1, day = 5\<rparr>], [171, 170]) \<and>
   \<not> date_le \<lparr>year = 2024, month = 1, day = 10\<rparr> \<lparr>year = 2024, month = 1, day = 5\<rparr> \<and>
   get_weights (Some \<lparr>year = 2024, month = 1, day = 8\<rparr>)
       (log_weight ''2024-01-10'' 171 (log_weight ''2024-1-5'' (170::real) (init_db None)))
     = Inr ([\<lparr>year = 2024, month = 1, day = 10\<rparr>, \<lparr>year = 2024, month = 1, day = 5\<rparr>], [171, 170]) \<and>
   \<not> date_le \<lparr>year = 2024, month = 1, day = 8\<rparr> \<lparr>year = 2024, month = 1, day = 5\<rparr> \<and>
   get_weights None (log_weight ''yesterday'' (170::real) (init_db None)) = Inl ValidationError"
proof -
  have p: "strptime ''2024-01-10'' = Inr \<lparr>year = 2024, month = 1, day = 10\<rparr>"
    "strptime ''2024-1-5'' = Inr \<lparr>year = 2024, month = 1, day = 5\<rparr>"
    "strptime ''yesterday'' = Inl ValidationError"
    by code_simp+
  show ?thesis
    by (simp add: get_weights_def select_weights_def log_weight_def insert_or_replace_def
        init_db_def p isoformat_jan08 date_le_def)
qed

text \<open>
  C4. For start dates \<open>d1 \<le> d2\<close> the rows selected from \<open>d2\<close> are among the rows selected
  from \<open>d1\<close>, in every state of the table; and whenever the query from \<open>d1\<close> returns, the
  query from \<open>d2\<close> returns as well, with dates (and measurements) among those of the
  query from \<open>d1\<close>.
\<close>

theorem get_weights_monotone:
  assumes "valid_date d1" "valid_date d2" "date_le d1 d2"
  shows "set (select_weights (Some d2) d) \<subseteq> set (select_weights (Some d1) d) \<and>
         (\<forall>ds1 ws1. get_weights (Some d1) d = Inr (ds1, ws1) \<longrightarrow>
            (\<exists>ds2 ws2. get_weights (Some d2) d = Inr (ds2, ws2) \<and> set ds2 \<subseteq> set ds1 \<and>
               set (zip ds2 ws2) \<subseteq> set (zip ds1 ws1)))"
proof -
  let ?r1 = "select_weights (Some d1) d" and ?r2 = "select_weights (Some d2) d"
  have "isoformat d1 \<le> isoformat d2"
    using assms by (simp add: isoformat_le)
  then have sub: "set ?r2 \<subseteq> set ?r1"
    by (auto simp: set_select_weights from_start_def)
  have "\<exists>ds2 ws2. get_weights (Some d2) d = Inr (ds2, ws2) \<and> set ds2 \<subseteq> set ds1 \<and>
               set (zip ds2 ws2) \<subseteq> set (zip ds1 ws1)"
    if "get_weights (Some d1) d = Inr (ds1, ws1)" for ds1 ws1
  proof -
    from that have p1: "parse_dates ?r1 = Inr ds1" and w1: "ws1 = map snd ?r1"
      by (simp_all add: get_weights_rows)
    from parse_dates_Inr_date_of [OF p1]
    have d1: "ds1 = map date_of ?r1" and ok: "\<forall>r\<in>set ?r1. strptime (fst r) = Inr (date_of r)"
      by simp_all
    have "parse_dates ?r2 = Inr (map date_of ?r2)"
      by (rule parse_dates_ok) (use ok sub in blast)
    then have "get_weights (Some d2) d = Inr (map date_of ?r2, map snd ?r2)"
      by (simp add: get_weights_rows)
    moreover have "set (map date_of ?r2) \<subseteq> set ds1"
      using sub by (auto simp: d1)
    moreover have "set (zip (map date_of ?r2) (map snd ?r2)) \<subseteq> set (zip ds1 ws1)"
      using sub by (auto simp: d1 w1 zip_map_same)
    ultimately show ?thesis by blast
  qed
  with sub show ?thesis by blast
qed

text \<open>
  C10. The two lists that \<open>get_weights\<close> returns have the same length, and at each
  index the weight and the date come from the same row of the table: the row selected
  at that index holds the weight, and its text parses to the date.
\<close>

theorem get_weights_parallel:
  assumes "get_weights start d = Inr (dates, ws)"
  shows "length dates = length ws \<and>
         (\<forall>i<length dates. \<exists>s. (s, ws ! i) \<in> set (weights d) \<and> strptime s = Inr (dates ! i) \<and>
            select_weights start d ! i = (s, ws ! i))"
proof -
  let ?r = "select_weights start d"
  from assms have p: "parse_dates ?r = Inr dates" and w: "ws = map snd ?r"
    by (simp_all add: get_weights_rows)
  from parse_dates_Inr_date_of [OF p]
  have ds: "dates = map date_of ?r" and ok: "\<forall>r\<in>set ?r. strptime (fst r) = Inr (date_of r)"
    by simp_all
  have "\<exists>s. (s, ws ! i) \<in> set (weights d) \<and> strptime s = Inr (dates ! i) \<and> ?r ! i = (s, ws ! i)"
    if "i < length dates" for i
  proof -
    have i: "i < length ?r" using that by (simp add: ds)
    then have mem: "?r ! i \<in> set ?r" by simp
    then have "?r ! i \<in> set (weights d)" by (simp add: set_select_weights)
    moreover have "strptime (fst (?r ! i)) = Inr (dates ! i)"
      using ok mem i by (simp add: ds)
    moreover have "?r ! i = (fst (?r ! i), ws ! i)"
      using i by (simp add: w)
    ultimately show ?thesis by metis
  qed
  then show ?thesis by (simp add: ds w)
qed

text \<open>
  C8, amended. \<open>log_weight\<close> has no failing branch and does not look at the date: for
  every text, whether or not it is a well-formed calendar day, the table afterwards
  holds exactly one row for that text, with the weight given; the rows of the other
  dates and the preferences are as before.
\<close>

theorem log_weight_any_text:
  "filter (\<lambda>r. fst r = k) (weights (log_weight k v d)) = [(k, v)] \<and>
   filter (\<lambda>r. fst r \<noteq> k) (weights (log_weight k v d)) = filter (\<lambda>r. fst r \<noteq> k) (weights d) \<and>
   preferences (log_weight k v d) = preferences d"
  by (simp add: log_weight_def insert_or_replace_same insert_or_replace_other)

lemma valid_jan:
  "valid_date \<lparr>year = 2024, month = 1, day = 1\<rparr>"
  "valid_date \<lparr>year = 2024, month = 1, day = 8\<rparr>"
  by (simp_all add: valid_date_def days_in_month_def DAYS_IN_MONTH_def)

lemma isoformat_jan01: "isoformat \<lparr>year = 2024, month = 1, day = 1\<rparr> = ''2024-01-01''"
  by code_simp

lemma query_from_jan01:
  "get_weights (Some \<lparr>year = 2024, month = 1, day = 1\<rparr>)
     (log_weight ''2024-01-15'' 176 (log_weight ''2024-01-08'' 178
       (log_weight ''2024-01-01'' (180::real) (init_db None))))
   = Inr ([\<lparr>year = 2024, month = 1, day = 1\<rparr>, \<lparr>year = 2024, month = 1, day = 8\<rparr>,
           \<lparr>year = 2024, month = 1, day = 15\<rparr>], [180, 178, 176])"
  by (simp add: get_weights_def select_weights_def weights_three strptime_jan isoformat_jan01)

lemma query_from_jan08:
  "get_weights (Some \<lparr>year = 2024, month = 1, day = 8\<rparr>)
     (log_weight ''2024-01-15'' 176 (log_weight ''2024-01-08'' 178
       (log_weight ''2024-01-01'' (180::real) (init_db None))))
   = Inr ([\<lparr>year = 2024, month = 1, day = 8\<rparr>, \<lparr>year = 2024, month = 1, day = 15\<rparr>], [178, 176])"
  by (simp add: get_weights_def select_weights_def weights_three strptime_jan isoformat_jan08)

theorem get_weights_monotone_witness:
  "set (select_weights (Some \<lparr>year = 2024, month = 1, day = 8\<rparr>)
     (log_weight ''2024-01-15'' 176 (log_weight ''2024-01-08'' 178
       (log_weight ''2024-01-01'' (180::real) (init_db None)))))
   \<subseteq> set (select_weights (Some \<lparr>year = 2024, month = 1, day = 1\<rparr>)
     (log_weight ''2024-01-15'' 176 (log_weight ''2024-01-08'' 178
       (log_weight ''2024-01-01'' (180::real) (init_db None))))) \<and>
   (\<exists>ds2 ws2. get_weights (Some \<lparr>year = 2024, month = 1, day = 8\<rparr>)
     (log_weight ''2024-01-15'' 176 (log_weight ''2024-01-08'' 178
       (log_weight ''2024-01-01'' (180::real) (init_db None)))) = Inr (ds2, ws2) \<and>
     set ds2 \<subseteq> {\<lparr>year = 2024, month = 1, day = 1\<rparr>, \<lparr>year = 2024, month = 1, day = 8\<rparr>,
           \<lparr>year = 2024, month = 1, day = 15\<rparr>})"
proof -
  have le: "date_le \<lparr>year = 2024, month = 1, day = 1\<rparr> \<lparr>year = 2024, month = 1, day = 8\<rparr>"
    by (simp add: date_le_def)
  show ?thesis
    using get_weights_monotone [OF valid_jan(1) valid_jan(2) le] query_from_jan01
    by fastforce
qed

theorem get_weights_parallel_witness:
  "length [\<lparr>year = 2024, month = 1, day = 8\<rparr>, \<lparr>year = 2024, month = 1, day = 15\<rparr>]
     = length [178, 176 :: real] \<and>
   (\<exists>s. (s, 176) \<in> set (weights (log_weight ''2024-01-15'' 176 (log_weight ''2024-01-08'' 178
             (log_weight ''2024-01-01'' (180::real) (init_db None))))) \<and>
        strptime s = Inr \<lparr>year = 2024, month = 1, day = 15\<rparr>)"
proof -
  have "(1::nat) < length [\<lparr>year = 2024, month = 1, day = 8\<rparr>, \<lparr>year = 2024, month = 1, day = 15\<rparr>]"
    by simp
  then show ?thesis
    using get_weights_parallel [OF query_from_jan08] by fastforce
qed

text \<open>
  C8, as stated, fails: the text \<open>2024-13-45\<close> is no calendar day, and logging it into
  an empty database writes the row.
\<close>

theorem log_weight_unchecked_counterexample:
  "strptime ''2024-13-45'' = Inl ValidationError \<and>
   weights (log_weight ''2024-13-45'' (180::real) (init_db None)) = [(''2024-13-45'', 180)]"
proof -
  have "strptime ''2024-13-45'' = Inl ValidationError" by code_simp
  then show ?thesis
    by (simp add: log_weight_def insert_or_replace_def init_db_def)
qed

end
